theory Spec2Isabelle
  imports Main "HOL-Library.Sublist"
begin

section \<open>Documents\<close>

text \<open>
  The tool reads locale files with \<open>JSON.parse\<close> and treats the result as a
  \<open>NestedObject\<close>. A parsed document is a JSON value. A number is only ever copied
  or rendered into a template literal, so it is kept as its rendering. An object is the
  list of its own properties, in the order \<open>Object.keys\<close> enumerates them; every
  object of a parsed document has distinct keys and \<open>Object.prototype\<close> as its
  prototype.

  Two things an object of the program has are not in the list. JavaScript enumerates
  the keys that are array indices first, whenever they were added; the list keeps a new
  key last, so statements about the order of keys are about the lists as they stand.
  And no object records its prototype: what the program does through an inherited
  \<open>__proto__\<close> is marked where it happens.
\<close>

datatype json =
    JNull
  | JBool bool
  | JNum string
  | JStr string
  | JArr "json list"
  | JObj "(string \<times> json) list"

type_synonym obj = "(string \<times> json) list"

text \<open>
  \<open>typeof value === 'object' && value !== null && !Array.isArray(value)\<close>,
  the test of \<open>flattenObject\<close> and \<open>removeKeysFromObject\<close>.
\<close>

fun is_branch :: "json \<Rightarrow> bool" where
  "is_branch (JObj kids) = True"
| "is_branch v = False"

text \<open>
  The assignment \<open>o[k] = v\<close> on an object whose prototype is
  \<open>Object.prototype\<close>: an own property keeps its place and takes the new value, a new
  property is added last. The name \<open>__proto__\<close> is special: unless it is an own
  property already, the assignment reaches the accessor of \<open>Object.prototype\<close> and
  creates no own property. (Where the value is an object or \<open>null\<close> the accessor
  replaces the prototype of the object, which the embedding does not follow: the
  statements below that read a tree after such an assignment are about documents
  without the key \<open>__proto__\<close>.)
\<close>

fun set_prop :: "obj \<Rightarrow> string \<Rightarrow> json \<Rightarrow> obj" where
  "set_prop [] k v = (if k = ''__proto__'' then [] else [(k, v)])"
| "set_prop ((k', v') # kvs) k v =
     (if k' = k then (k, v) # kvs else (k', v') # set_prop kvs k v)"

text \<open>\<open>Object.assign(acc, src)\<close>: one assignment per own property of \<open>src\<close>.\<close>

definition assign :: "obj \<Rightarrow> obj \<Rightarrow> obj" where
  "assign acc src = fold (\<lambda>(k, v) a. set_prop a k v) src acc"

section \<open>Flattener\<close>

text \<open>The template literal \<open>prefix ? `${prefix}.${key}` : key\<close>.\<close>

definition property_path :: "string \<Rightarrow> string \<Rightarrow> string" where
  "property_path pre key = (if pre \<noteq> [] then pre @ ''.'' @ key else key)"

fun flattenObject :: "obj \<Rightarrow> string \<Rightarrow> obj" where
  "flattenObject obj pre =
     fold (\<lambda>(key, val) acc.
             let propertyPath = property_path pre key in
             (case val of
                JObj kids \<Rightarrow> assign acc (flattenObject kids propertyPath)
              | _ \<Rightarrow> set_prop acc propertyPath val))
          obj []"

section \<open>Pruner\<close>

definition startsWith :: "string \<Rightarrow> string \<Rightarrow> bool" where
  "startsWith k p = (take (length p) k = p)"

fun removeKeysFromObject :: "obj \<Rightarrow> string list \<Rightarrow> obj" where
  "removeKeysFromObject obj keysToRemove =
     fold (\<lambda>(key, val) result.
             let shouldRemoveKey =
                   list_ex (\<lambda>k. k = key \<or> startsWith k (key @ ''.'')) keysToRemove;
                 hasNestedRemovals =
                   list_ex (\<lambda>k. startsWith k (key @ ''.'')) keysToRemove
             in if key \<in> set keysToRemove then result
                else if is_branch val \<and> hasNestedRemovals then
                  (case val of
                     JObj kids \<Rightarrow>
                       let nestedKeysToRemove =
                             map (\<lambda>k. drop (length key + 1) k)
                               (filter (\<lambda>k. startsWith k (key @ ''.'')) keysToRemove);
                           cleaned = removeKeysFromObject kids nestedKeysToRemove
                       in if length cleaned > 0 then set_prop result key (JObj cleaned)
                          else result
                   | _ \<Rightarrow> result)
                else if \<not> shouldRemoveKey \<or> hasNestedRemovals then set_prop result key val
                else result)
          obj []"

section \<open>Injector\<close>

text \<open>\<open>keyPath.split('.')\<close>: never the empty list.\<close>

fun split_dot :: "string \<Rightarrow> string list" where
  "split_dot [] = [[]]"
| "split_dot (c # cs) =
     (let r = split_dot cs
      in if c = CHR ''.'' then [] # r else (c # hd r) # tl r)"

text \<open>
  The names every object inherits from \<open>Object.prototype\<close>. The operator \<open>in\<close>
  sees them as well as the own properties. All of them hold functions, but
  \<open>__proto__\<close>, which reads as the prototype object itself.
\<close>

definition object_prototype_names :: "string list" where
  "object_prototype_names =
     [''constructor'', ''__defineGetter__'', ''__defineSetter__'', ''hasOwnProperty'',
      ''__lookupGetter__'', ''__lookupSetter__'', ''isPrototypeOf'',
      ''propertyIsEnumerable'', ''toString'', ''valueOf'', ''__proto__'',
      ''toLocaleString'']"

definition has_in :: "obj \<Rightarrow> string \<Rightarrow> bool" where
  "has_in current part = (part \<in> fst ` set current \<or> part \<in> set object_prototype_names)"

text \<open>
  What stops a run. \<open>Exit1\<close> is \<open>process.exit(1)\<close>. \<open>TypeError\<close> is the exception
  of \<open>part in null\<close>. The last two mark where the embedding ends: the walk of
  \<open>addMissingKeys\<close> has stepped into an array, or through the inherited
  \<open>__proto__\<close> into \<open>Object.prototype\<close> itself, and goes on writing properties of
  that object, which a JSON value does not represent.
\<close>

datatype stop = Exit1 | TypeError | Into_array | Into_prototype

text \<open>The conversion of a value in a template literal.\<close>

fun join_comma :: "string list \<Rightarrow> string" where
  "join_comma [] = []"
| "join_comma [s] = s"
| "join_comma (s # t # ts) = s @ '','' @ join_comma (t # ts)"

fun to_string :: "json \<Rightarrow> string" where
  "to_string JNull = ''null''"
| "to_string (JBool b) = (if b then ''true'' else ''false'')"
| "to_string (JNum n) = n"
| "to_string (JStr s) = s"
| "to_string (JArr xs) =
     join_comma (map (\<lambda>x. if x = JNull then [] else to_string x) xs)"
| "to_string (JObj kvs) = ''[object Object]''"

text \<open>
  \<open>`EN TEXT TO REPLACE: ${referenceFlat[keyPath]}`\<close>, for a key path that
  \<open>referenceFlat\<close> holds as an own property or not at all.
\<close>

definition placeholder :: "obj \<Rightarrow> string \<Rightarrow> json" where
  "placeholder referenceFlat keyPath =
     JStr (''EN TEXT TO REPLACE: '' @
       (case map_of referenceFlat keyPath of None \<Rightarrow> ''undefined'' | Some enValue \<Rightarrow> to_string enValue))"

text \<open>
  The body of the loop over \<open>keysToAdd\<close>, for one key path: the walk over
  \<open>parts[0 .. length - 2]\<close> and the assignment of the last part. The source mutates
  the objects it walks through; the embedding returns the object at the current
  position, rebuilt.
\<close>

fun walk :: "string list \<Rightarrow> json \<Rightarrow> obj \<Rightarrow> stop + obj" where
  "walk [] v current = Inr current"
| "walk [lastPart] v current =
     Inr (if has_in current lastPart then current else set_prop current lastPart v)"
| "walk (part # rest) v current =
     (case map_of current part of
        Some (JObj kids) \<Rightarrow>
          (case walk rest v kids of
             Inl e \<Rightarrow> Inl e
           | Inr kids' \<Rightarrow> Inr (set_prop current part (JObj kids')))
      | Some JNull \<Rightarrow> Inl TypeError
      | Some (JArr xs) \<Rightarrow> Inl Into_array
      | Some other \<Rightarrow>
          (case walk rest v [] of
             Inl e \<Rightarrow> Inl e
           | Inr kids' \<Rightarrow> Inr (set_prop current part (JObj kids')))
      | None \<Rightarrow>
          if part = ''__proto__'' then Inl Into_prototype
          else (case walk rest v [] of
                  Inl e \<Rightarrow> Inl e
                | Inr kids' \<Rightarrow> Inr (set_prop current part (JObj kids'))))"

fun addMissingKeys :: "obj \<Rightarrow> string list \<Rightarrow> obj \<Rightarrow> stop + obj" where
  "addMissingKeys result [] referenceFlat = Inr result"
| "addMissingKeys result (keyPath # keysToAdd) referenceFlat =
     (case walk (split_dot keyPath) (placeholder referenceFlat keyPath) result of
        Inl e \<Rightarrow> Inl e
      | Inr result' \<Rightarrow> addMissingKeys result' keysToAdd referenceFlat)"

section \<open>Orchestrator\<close>

text \<open>
  The directory of locale files, by file name, what \<open>readdirSync\<close> lists of it,
  and the log of the calls of \<open>writeFileSync\<close>. A file holds the document that
  \<open>JSON.parse\<close> reads from it.
\<close>

record world =
  files :: "string \<Rightarrow> obj option"
  listing :: "string list"
  writes :: "string list"

definition writeFileSync :: "string \<Rightarrow> obj \<Rightarrow> world \<Rightarrow> world" where
  "writeFileSync filePath content w =
     w\<lparr>files := (files w)(filePath \<mapsto> content), writes := writes w @ [filePath]\<rparr>"

definition loadJson :: "world \<Rightarrow> string \<Rightarrow> stop + obj" where
  "loadJson w filePath = (case files w filePath of None \<Rightarrow> Inl Exit1 | Some content \<Rightarrow> Inr content)"

record report =
  missing :: "string list"
  removed :: "string list"
  added :: "string list"

definition missingKeysOf :: "string list \<Rightarrow> string list \<Rightarrow> string list" where
  "missingKeysOf referenceKeys flattenedKeys =
     filter (\<lambda>key. \<not> List.member flattenedKeys key) referenceKeys"

definition extraneousKeysOf :: "string list \<Rightarrow> string list \<Rightarrow> string list" where
  "extraneousKeysOf referenceKeys flattenedKeys =
     filter (\<lambda>key. \<not> List.member referenceKeys key) flattenedKeys"

definition processLocale ::
  "string \<Rightarrow> string list \<Rightarrow> obj \<Rightarrow> bool \<Rightarrow> world \<Rightarrow> (stop + report) \<times> world" where
  "processLocale localeFile referenceKeys referenceFlat fix w =
     (case loadJson w localeFile of
        Inl e \<Rightarrow> (Inl e, w)
      | Inr content \<Rightarrow>
          let flattenedKeys = map fst (flattenObject content []);
              missingKeys = missingKeysOf referenceKeys flattenedKeys;
              extraneousKeys = extraneousKeysOf referenceKeys flattenedKeys;
              pruned = (if length extraneousKeys > 0
                        then removeKeysFromObject content extraneousKeys else content);
              modified = (length extraneousKeys > 0)
          in (case (if fix \<and> length missingKeys > 0
                    then map_sum id (\<lambda>c. (c, True)) (addMissingKeys pruned missingKeys referenceFlat)
                    else Inr (pruned, modified)) of
                Inl e \<Rightarrow> (Inl e, w)
              | Inr (content', modified') \<Rightarrow>
                  (Inr \<lparr>missing = missingKeys, removed = extraneousKeys,
                        added = (if fix then missingKeys else [])\<rparr>,
                   if modified' then writeFileSync localeFile content' w else w)))"

definition endsWith :: "string \<Rightarrow> string \<Rightarrow> bool" where
  "endsWith s suf = (length suf \<le> length s \<and> drop (length s - length suf) s = suf)"

text \<open>The result of \<open>runSingleLocale\<close> is the list of missing keys it prints.\<close>

definition runSingleLocale ::
  "string \<Rightarrow> string list \<Rightarrow> obj \<Rightarrow> bool \<Rightarrow> world \<Rightarrow> (stop + string list) \<times> world" where
  "runSingleLocale locale referenceKeys referenceFlat fix w =
     (let localeFile = (if endsWith locale ''.json'' then locale else locale @ ''.json'')
      in case loadJson w localeFile of
           Inl e \<Rightarrow> (Inl e, w)
         | Inr content \<Rightarrow>
             let flattenedKeys = map fst (flattenObject content []);
                 missingKeys = missingKeysOf referenceKeys flattenedKeys
             in if length missingKeys = 0 then (Inr missingKeys, w)
                else if fix then
                  (case addMissingKeys content missingKeys referenceFlat of
                     Inl e \<Rightarrow> (Inl e, w)
                   | Inr content' \<Rightarrow> (Inr missingKeys, writeFileSync localeFile content' w))
                else (Inr missingKeys, w))"

fun runAllLocales_loop ::
  "string list \<Rightarrow> string list \<Rightarrow> obj \<Rightarrow> bool \<Rightarrow> world \<Rightarrow> (stop + report list) \<times> world" where
  "runAllLocales_loop [] referenceKeys referenceFlat fix w = (Inr [], w)"
| "runAllLocales_loop (localeFile # localeFiles) referenceKeys referenceFlat fix w =
     (case processLocale localeFile referenceKeys referenceFlat fix w of
        (Inl e, w') \<Rightarrow> (Inl e, w')
      | (Inr r, w') \<Rightarrow>
          (case runAllLocales_loop localeFiles referenceKeys referenceFlat fix w' of
             (Inl e, w'') \<Rightarrow> (Inl e, w'')
           | (Inr rs, w'') \<Rightarrow> (Inr (r # rs), w'')))"

definition REFERENCE_FILE_NAME :: string where
  "REFERENCE_FILE_NAME = ''en.json''"

text \<open>The result of \<open>runAllLocales\<close> is the list of the reports it prints.\<close>

definition runAllLocales ::
  "string list \<Rightarrow> obj \<Rightarrow> bool \<Rightarrow> world \<Rightarrow> (stop + report list) \<times> world" where
  "runAllLocales referenceKeys referenceFlat fix w =
     (let localeFiles =
            filter (\<lambda>file. endsWith file ''.json'' \<and> file \<noteq> REFERENCE_FILE_NAME) (listing w)
      in runAllLocales_loop localeFiles referenceKeys referenceFlat fix w)"

text \<open>
  \<open>run\<close>, from the arguments of the command line on. Its result says only whether the
  run came to its end.
\<close>

definition run :: "string list \<Rightarrow> world \<Rightarrow> (stop + unit) \<times> world" where
  "run args w =
     (case loadJson w REFERENCE_FILE_NAME of
        Inl e \<Rightarrow> (Inl e, w)
      | Inr referenceContent \<Rightarrow>
          let referenceFlat = flattenObject referenceContent [];
              referenceKeys = map fst referenceFlat;
              fix = (''--fix'' \<in> set args)
          in (case find (\<lambda>arg. \<not> startsWith arg ''--'') args of
                Some targetLocale \<Rightarrow>
                  apfst (map_sum id (\<lambda>r. ())) (runSingleLocale targetLocale referenceKeys referenceFlat fix w)
              | None \<Rightarrow>
                  apfst (map_sum id (\<lambda>r. ())) (runAllLocales referenceKeys referenceFlat fix w)))"

section \<open>Key paths, leaves and nodes\<close>


definition segment :: "string \<Rightarrow> bool" where
  "segment s = (s \<noteq> [] \<and> CHR ''.'' \<notin> set s \<and> s \<noteq> ''__proto__'')"


text \<open>
  \<open>keys_ok P t\<close>: in \<open>t\<close> and in every object below it (arrays are not entered)
  the keys are distinct and satisfy \<open>P\<close>.
\<close>

fun keys_ok :: "(string \<Rightarrow> bool) \<Rightarrow> obj \<Rightarrow> bool" where
  "keys_ok P kvs =
     (distinct (map fst kvs) \<and>
      (\<forall>(k, v) \<in> set kvs. P k \<and> (case v of JObj kids \<Rightarrow> keys_ok P kids | _ \<Rightarrow> True)))"

text \<open>The leaves of a tree, each with its key path, in the order of the traversal.\<close>

fun leaves :: "obj \<Rightarrow> (string list \<times> json) list" where
  "leaves kvs =
     concat (map (\<lambda>(k, v). case v of
                                JObj kids \<Rightarrow> map (\<lambda>(p, u). (k # p, u)) (leaves kids)
                              | _ \<Rightarrow> [([k], v)]) kvs)"

text \<open>The node a key path leads to, if any.\<close>

fun node_at :: "obj \<Rightarrow> string list \<Rightarrow> json option" where
  "node_at t [] = Some (JObj t)"
| "node_at t (s # ps) =
     (case map_of t s of
        None \<Rightarrow> None
      | Some (JObj kids) \<Rightarrow> node_at kids ps
      | Some v \<Rightarrow> (if ps = [] then Some v else None))"

definition branch_at :: "obj \<Rightarrow> string list \<Rightarrow> bool" where
  "branch_at t p = (case node_at t p of Some (JObj kids) \<Rightarrow> True | _ \<Rightarrow> False)"

text \<open>No object below the root of the document is empty.\<close>

fun no_empty_branch :: "obj \<Rightarrow> bool" where
  "no_empty_branch kvs =
     (\<forall>(k, v) \<in> set kvs. case v of JObj kids \<Rightarrow> kids \<noteq> [] \<and> no_empty_branch kids | _ \<Rightarrow> True)"

section \<open>Auxiliary definitions for the proofs\<close>

text \<open>One turn of the loop of \<open>removeKeysFromObject\<close>.\<close>

definition prune_step :: "string list \<Rightarrow> string \<times> json \<Rightarrow> obj \<Rightarrow> obj" where
  "prune_step keysToRemove = (\<lambda>(key, val) result.
             let shouldRemoveKey =
                   list_ex (\<lambda>k. k = key \<or> startsWith k (key @ ''.'')) keysToRemove;
                 hasNestedRemovals =
                   list_ex (\<lambda>k. startsWith k (key @ ''.'')) keysToRemove
             in if key \<in> set keysToRemove then result
                else if is_branch val \<and> hasNestedRemovals then
                  (case val of
                     JObj kids \<Rightarrow>
                       let nestedKeysToRemove =
                             map (\<lambda>k. drop (length key + 1) k)
                               (filter (\<lambda>k. startsWith k (key @ ''.'')) keysToRemove);
                           cleaned = removeKeysFromObject kids nestedKeysToRemove
                       in if length cleaned > 0 then set_prop result key (JObj cleaned)
                          else result
                   | _ \<Rightarrow> result)
                else if \<not> shouldRemoveKey \<or> hasNestedRemovals then set_prop result key val
                else result)"

text \<open>A key path of segments, and the paths of a list that go on below a key.\<close>

definition seg_path :: "string list \<Rightarrow> bool" where
  "seg_path p = (p \<noteq> [] \<and> (\<forall>s \<in> set p. segment s))"

definition below :: "string \<Rightarrow> string list list \<Rightarrow> string list list" where
  "below k ps = map tl (filter (\<lambda>p. hd p = k \<and> tl p \<noteq> []) ps)"

text \<open>
  Paths that the pruner can be given for a tree: each is a path of segments, and one
  that starts with a key of the tree is the path of a leaf of the tree.
\<close>

definition prunable :: "obj \<Rightarrow> string list list \<Rightarrow> bool" where
  "prunable t ps = (\<forall>p \<in> set ps. seg_path p \<and> (hd p \<in> fst ` set t \<longrightarrow> p \<in> fst ` set (leaves t)))"

text \<open>A directory with one locale file, before any write.\<close>

definition one_file :: "string \<Rightarrow> obj \<Rightarrow> world" where
  "one_file f t = \<lparr>files = [f \<mapsto> t], listing = [f], writes = []\<rparr>"

section \<open>Facts about the embedding\<close>

declare flattenObject.simps [simp del] removeKeysFromObject.simps [simp del]
  keys_ok.simps [simp del] leaves.simps [simp del] no_empty_branch.simps [simp del]

subsection \<open>Dotted paths\<close>












subsection \<open>Assignments\<close>





subsection \<open>Induction over documents\<close>

lemma obj_induct [case_names Nil Branch Leaf]:
  assumes "P []"
    and "\<And>k kids r. P kids \<Longrightarrow> P r \<Longrightarrow> P ((k, JObj kids) # r)"
    and "\<And>k v r. \<not> is_branch v \<Longrightarrow> P r \<Longrightarrow> P ((k, v) # r)"
  shows "P (t :: obj)"
proof (induction t rule: measure_induct_rule [where f = "\<lambda>t. size (JObj t)"])
  case (less t)
  show ?case
  proof (cases t)
    case Nil with assms(1) show ?thesis by simp
  next
    case (Cons e r)
    obtain k v where e: "e = (k, v)" by (cases e)
    have r: "P r" using less Cons by simp
    show ?thesis
    proof (cases v)
      case (JObj kids)
      have "P kids" using less Cons e JObj by simp
      with r assms(2) Cons e JObj show ?thesis by simp
    qed (use r assms(3) Cons e in auto)
  qed
qed

lemma keys_ok_Nil [simp]: "keys_ok P []"
  by (simp add: keys_ok.simps)

lemma keys_ok_Cons [simp]:
  "keys_ok P ((k, v) # r) \<longleftrightarrow>
     k \<notin> fst ` set r \<and> P k \<and> (case v of JObj kids \<Rightarrow> keys_ok P kids | _ \<Rightarrow> True) \<and> keys_ok P r"
  by (simp add: keys_ok.simps [of P "(k, v) # r"] keys_ok.simps [of P r]) auto

lemma leaves_Nil [simp]: "leaves [] = []"
  by (simp add: leaves.simps)

lemma leaves_Branch [simp]:
  "leaves ((k, JObj kids) # r) = map (\<lambda>(p, u). (k # p, u)) (leaves kids) @ leaves r"
  by (subst leaves.simps, subst (3) leaves.simps) simp

lemma leaves_Leaf [simp]:
  "\<not> is_branch v \<Longrightarrow> leaves ((k, v) # r) = ([k], v) # leaves r"
  by (subst leaves.simps, subst (2) leaves.simps) (cases v; simp)

lemma leaves_append [simp]: "leaves (xs @ ys) = leaves xs @ leaves ys"
  by (simp add: leaves.simps)

lemma leaves_head:
  "(p, v) \<in> set (leaves t) \<Longrightarrow> p \<noteq> [] \<and> hd p \<in> fst ` set t"
  by (induction t arbitrary: p rule: obj_induct) (auto simp: image_iff)


lemma leaves_not_branch:
  "(p, v) \<in> set (leaves t) \<Longrightarrow> \<not> is_branch v"
  by (induction t arbitrary: p rule: obj_induct) auto






subsection \<open>The pruner, entry by entry\<close>


lemma set_prop_keys: "fst ` set (set_prop a k v) \<subseteq> insert k (fst ` set a)"
  by (induction a) (force split: if_splits)+


lemma removeKeys_fold: "removeKeysFromObject obj ks = fold (prune_step ks) obj []"
  by (simp add: removeKeysFromObject.simps [of obj] prune_step_def)

lemma prune_step_cases:
  "prune_step ks (k, v) a = a \<or> (\<exists>v'. prune_step ks (k, v) a = set_prop a k v')"
  by (auto simp: prune_step_def Let_def split: json.splits)


lemma prune_step_keys: "fst ` set (prune_step ks (k, v) a) \<subseteq> insert k (fst ` set a)"
proof -
  consider "prune_step ks (k, v) a = a" | v' where "prune_step ks (k, v) a = set_prop a k v'"
    using prune_step_cases [of ks k v a] by blast
  then show ?thesis
  proof cases
    case 1 then show ?thesis by auto
  next
    case 2 then show ?thesis using set_prop_keys [of a k v'] by simp
  qed
qed

lemma fold_prune_keys: "fst ` set (fold (prune_step ks) es a) \<subseteq> fst ` set es \<union> fst ` set a"
proof (induction es arbitrary: a)
  case Nil then show ?case by simp
next
  case (Cons e es)
  obtain k v where e: "e = (k, v)" by (cases e)
  show ?case using Cons [of "prune_step ks (k, v) a"] prune_step_keys [of ks k v a] e
    by auto
qed

lemma removeKeys_keys: "fst ` set (removeKeysFromObject t ks) \<subseteq> fst ` set t"
  using fold_prune_keys [of ks t "[]"] by (simp add: removeKeys_fold)



lemma removeKeys_Nil [simp]: "removeKeysFromObject [] ks = []"
  by (simp add: removeKeys_fold)
subsection \<open>Dotted keys of segment paths\<close>

lemma below_iff:
  assumes "\<forall>p \<in> set ps. p \<noteq> []"
  shows "t \<in> set (below k ps) \<longleftrightarrow> t \<noteq> [] \<and> k # t \<in> set ps"
proof
  assume "t \<in> set (below k ps)"
  then obtain p where p: "p \<in> set ps" "hd p = k" "tl p \<noteq> []" "t = tl p"
    by (auto simp: below_def)
  have "p \<noteq> []" using assms p(1) by blast
  then have "hd p # tl p = p" by (rule hd_Cons_tl)
  then have "k # t = p" using p(2,4) by simp
  with p(1,3,4) show "t \<noteq> [] \<and> k # t \<in> set ps" by simp
next
  assume "t \<noteq> [] \<and> k # t \<in> set ps"
  then show "t \<in> set (below k ps)" by (force simp: below_def)
qed







lemma below_seg_path:
  "\<forall>p \<in> set ps. seg_path p \<Longrightarrow> \<forall>t \<in> set (below k ps). seg_path t"
  by (auto simp: below_def seg_path_def dest: list.set_sel(2))










lemma prunable_leaf_no_below:
  assumes "prunable ((k, v) # r) ps" "k \<notin> fst ` set r" "\<not> is_branch v"
  shows "below k ps = []"
proof (rule ccontr)
  assume "below k ps \<noteq> []"
  then obtain t where t: "t \<in> set (below k ps)" by (cases "below k ps") auto
  have ne: "\<forall>p \<in> set ps. p \<noteq> []" using assms(1) by (auto simp: prunable_def seg_path_def)
  from t have kt: "t \<noteq> []" "k # t \<in> set ps" using below_iff [OF ne] by auto
  then have "k # t \<in> fst ` set (leaves ((k, v) # r))"
    using assms(1) by (auto simp: prunable_def)
  then have "k # t \<in> fst ` set (leaves r)" using assms(3) kt by auto
  then show False using leaves_head [of "k # t" _ r] assms(2) by auto
qed

subsection \<open>Nodes\<close>

lemma map_of_set_prop_new:
  "k \<noteq> ''__proto__'' \<Longrightarrow> map_of (set_prop u k y) = (map_of u)(k \<mapsto> y)"
  by (induction u) (auto simp: fun_eq_iff)

lemma map_of_set_prop_own:
  "k \<in> fst ` set u \<Longrightarrow> map_of (set_prop u k y) = (map_of u)(k \<mapsto> y)"
proof (induction u)
  case Nil then show ?case by simp
next
  case (Cons e u)
  obtain a b where e: "e = (a, b)" by (cases e)
  show ?case
  proof (cases "a = k")
    case True then show ?thesis using e by (simp add: fun_eq_iff)
  next
    case False
    then have "k \<in> fst ` set u" using Cons.prems e by auto
    then have "map_of (set_prop u k y) = (map_of u)(k \<mapsto> y)" by (rule Cons.IH)
    then show ?thesis using False e by (simp add: fun_eq_iff)
  qed
qed

lemma map_of_set_prop:
  "k \<in> fst ` set u \<or> k \<noteq> ''__proto__'' \<Longrightarrow> map_of (set_prop u k y) = (map_of u)(k \<mapsto> y)"
  using map_of_set_prop_new map_of_set_prop_own by blast





lemma entry_cases [case_names Absent Branch Leaf]:
  obtains "map_of t s = None"
  | kids where "map_of t s = Some (JObj kids)"
  | v where "map_of t s = Some v" "\<not> is_branch v"
proof (cases "map_of t s")
  case None then show ?thesis using that by blast
next
  case (Some v) then show ?thesis using that by (cases v) auto
qed

lemma node_at_Absent: "map_of t s = None \<Longrightarrow> node_at t (s # ps) = None"
  by simp

lemma node_at_Branch: "map_of t s = Some (JObj kids) \<Longrightarrow> node_at t (s # ps) = node_at kids ps"
  by simp

lemma node_at_Leaf:
  "map_of t s = Some v \<Longrightarrow> \<not> is_branch v \<Longrightarrow>
   node_at t (s # ps) = (if ps = [] then Some v else None)"
  by (cases v) auto

lemmas node_at_Cons = node_at_Absent node_at_Branch node_at_Leaf

declare node_at.simps(2) [simp del]

lemma node_at_None_ext:
  "node_at u p = None \<Longrightarrow> prefix p q \<Longrightarrow> node_at u q = None"
proof (induction p arbitrary: u q)
  case Nil then show ?case by simp
next
  case (Cons s ps)
  from Cons.prems(2) obtain q' where q: "q = s # q'" "prefix ps q'" by (cases q) auto
  show ?case
  proof (cases rule: entry_cases [of u s])
    case Absent then show ?thesis using q by (simp add: node_at_Cons)
  next
    case (Branch kids)
    then show ?thesis using Cons q by (simp add: node_at_Cons)
  next
    case (Leaf v)
    then show ?thesis using Cons.prems q by (auto simp: node_at_Cons split: if_splits)
  qed
qed


subsection \<open>The walk of the injector\<close>







lemma branch_at_Nil [simp]: "branch_at u []"
  by (simp add: branch_at_def)






subsection \<open>Branches after pruning\<close>








subsection \<open>The diff on dotted keys\<close>





subsection \<open>One locale, in paths\<close>




lemma files_writeFileSync [simp]: "files (writeFileSync f c w) f = Some c"
  by (simp add: writeFileSync_def)







subsection \<open>Empty branches\<close>


















lemmas eval_defs =
  flattenObject.simps assign_def property_path_def removeKeys_fold prune_step_def startsWith_def
  processLocale_def runSingleLocale_def loadJson_def writeFileSync_def one_file_def endsWith_def
  missingKeysOf_def extraneousKeysOf_def has_in_def object_prototype_names_def placeholder_def
  Let_def

lemma no_empty_branch_Nil [simp]: "no_empty_branch []"
  by (simp add: no_empty_branch.simps [of "[]"])

lemma no_empty_branch_Cons [simp]:
  "no_empty_branch ((k, v) # r) \<longleftrightarrow>
     (case v of JObj kids \<Rightarrow> kids \<noteq> [] \<and> no_empty_branch kids | _ \<Rightarrow> True) \<and> no_empty_branch r"
  by (simp add: no_empty_branch.simps [of "(k, v) # r"] no_empty_branch.simps [of r])


lemma assign_Nil [simp]: "assign acc [] = acc"
  by (simp add: assign_def)

lemma flattenObject_Nil [simp]: "flattenObject [] pre = []"
  by (simp add: flattenObject.simps)

section \<open>The claims\<close>

text \<open>
  In the statements, \<open>keys_ok segment t\<close> says that the keys of the document
  \<open>t\<close> are segments, so that a dotted key path names one path of the tree, and
  \<open>keys_ok fresh_segment t\<close> that, moreover, none of them is a name that every object
  inherits from \<open>Object.prototype\<close>. The reference keys and the reference index are
  those that \<open>run\<close> computes from a reference document \<open>R\<close>:
  \<open>map fst (flattenObject R [])\<close> and \<open>flattenObject R []\<close>.
\<close>




text \<open>
  C2. Where an intermediate segment holds \<open>null\<close>, \<open>addMissingKeys\<close> does not
  put an empty Branch in its place: \<open>typeof null\<close> is \<open>'object'\<close>, the walk steps
  into \<open>null\<close>, and the next \<open>in\<close> raises a TypeError. Where it holds an array the
  walk steps into the array. A string, a number or a boolean is replaced as the claim
  says. The single-locale mode with the fix toggle reaches the TypeError, for the
  reference \<open>{a: {b: "X"}}\<close> and the locale \<open>{a: null}\<close>, and then writes
  nothing.
\<close>

theorem addMissingKeys_null_intermediate:
  "addMissingKeys [(''a'', JNull)] [''a.b''] referenceFlat = Inl TypeError
   \<and> addMissingKeys [(''a'', JArr xs)] [''a.b''] referenceFlat = Inl Into_array
   \<and> addMissingKeys [(''a'', JStr s)] [''a.b''] referenceFlat
       = Inr [(''a'', JObj [(''b'', placeholder referenceFlat ''a.b'')])]
   \<and> runSingleLocale ''de''
        (map fst (flattenObject [(''a'', JObj [(''b'', JStr ''X'')])] []))
        (flattenObject [(''a'', JObj [(''b'', JStr ''X'')])] []) True
        (one_file ''de.json'' [(''a'', JNull)])
       = (Inl TypeError, one_file ''de.json'' [(''a'', JNull)])"
  by (simp add: eval_defs)
















text \<open>
  C8. The diff is an exact set difference on whole key paths, and keeps the order of
  enumeration: the missing keys are the keys of the reference index that are not keys
  of the target index, in the order of the reference keys; the extraneous keys are the
  keys of the target index that are not keys of the reference index, in the order of
  the target keys. A key is present only if it is equal to a key of the other index,
  so a key that is only a prefix of one counts as absent.
\<close>

theorem diff_exact:
  "missingKeysOf (map fst referenceFlat) (map fst targetFlat)
     = filter (\<lambda>k. k \<notin> fst ` set targetFlat) (map fst referenceFlat)
   \<and> set (missingKeysOf (map fst referenceFlat) (map fst targetFlat))
     = fst ` set referenceFlat - fst ` set targetFlat
   \<and> subseq (missingKeysOf (map fst referenceFlat) (map fst targetFlat)) (map fst referenceFlat)
   \<and> extraneousKeysOf (map fst referenceFlat) (map fst targetFlat)
     = filter (\<lambda>k. k \<notin> fst ` set referenceFlat) (map fst targetFlat)
   \<and> set (extraneousKeysOf (map fst referenceFlat) (map fst targetFlat))
     = fst ` set targetFlat - fst ` set referenceFlat
   \<and> subseq (extraneousKeysOf (map fst referenceFlat) (map fst targetFlat)) (map fst targetFlat)"
  by (auto simp: missingKeysOf_def extraneousKeysOf_def)

text \<open>
  C9. When the keys to remove reach below a Branch and the recursive call leaves none of
  its children, the loop adds nothing for that Branch: the result is the result for the
  parent without the Branch, and the key of the Branch is not a key of the result.
\<close>

theorem emptied_branch_is_omitted:
  assumes "list_ex (\<lambda>k. startsWith k (key @ ''.'')) keysToRemove"
    and "removeKeysFromObject kids
           (map (\<lambda>k. drop (length key + 1) k)
              (filter (\<lambda>k. startsWith k (key @ ''.'')) keysToRemove)) = []"
  shows "removeKeysFromObject (xs @ (key, JObj kids) # ys) keysToRemove
           = removeKeysFromObject (xs @ ys) keysToRemove
       \<and> (key \<notin> fst ` set (xs @ ys) \<longrightarrow>
            (\<forall>v. (key, v) \<notin> set (removeKeysFromObject (xs @ (key, JObj kids) # ys) keysToRemove)))"
proof -
  have step: "prune_step keysToRemove (key, JObj kids) acc = acc" for acc
    using assms by (simp add: prune_step_def Let_def)
  have eq: "removeKeysFromObject (xs @ (key, JObj kids) # ys) keysToRemove
           = removeKeysFromObject (xs @ ys) keysToRemove"
    by (simp add: removeKeys_fold step)
  have "fst ` set (removeKeysFromObject (xs @ ys) keysToRemove) \<subseteq> fst ` set (xs @ ys)"
    by (rule removeKeys_keys)
  then have "key \<notin> fst ` set (xs @ ys) \<longrightarrow>
      (\<forall>v. (key, v) \<notin> set (removeKeysFromObject (xs @ ys) keysToRemove))"
    by force
  with eq show ?thesis by simp
qed

theorem emptied_branch_is_omitted_witness:
  "removeKeysFromObject ([(''k'', JStr ''v'')] @ (''a'', JObj [(''b'', JStr ''1''), (''c'', JNull)]) # [(''z'', JObj [])])
       [''a.b'', ''a.c'']
     = [(''k'', JStr ''v''), (''z'', JObj [])]
   \<and> (\<forall>v. (''a'', v) \<notin> set (removeKeysFromObject
         ([(''k'', JStr ''v'')] @ (''a'', JObj [(''b'', JStr ''1''), (''c'', JNull)]) # [(''z'', JObj [])])
         [''a.b'', ''a.c'']))"
proof -
  have 1: "list_ex (\<lambda>k. startsWith k (''a'' @ ''.'')) [''a.b'', ''a.c'']"
    by (simp add: startsWith_def)
  have 2: "removeKeysFromObject [(''b'', JStr ''1''), (''c'', JNull)]
           (map (\<lambda>k. drop (length ''a'' + 1) k)
              (filter (\<lambda>k. startsWith k (''a'' @ ''.'')) [''a.b'', ''a.c''])) = []"
    by (simp add: removeKeys_fold prune_step_def startsWith_def)
  have 3: "removeKeysFromObject ([(''k'', JStr ''v'')] @ [(''z'', JObj [])]) [''a.b'', ''a.c'']
      = [(''k'', JStr ''v''), (''z'', JObj [])]"
    by (simp add: removeKeys_fold prune_step_def startsWith_def)
  show ?thesis
    using emptied_branch_is_omitted [OF 1 2, of "[(''k'', JStr ''v'')]" "[(''z'', JObj [])]"] 3
    by simp
qed

text \<open>
  C10. An empty Branch gets no key path: the flat index of an empty object is empty, and
  an object with an empty Branch among its children, at any place and under any prefix,
  has the flat index it has without that child. So the diff of a document does not
  change when an empty Branch is taken out of it, be it the reference or the locale.
\<close>

theorem empty_branch_invisible:
  "flattenObject [] pre = []
   \<and> flattenObject (xs @ (k, JObj []) # ys) pre = flattenObject (xs @ ys) pre
   \<and> missingKeysOf referenceKeys (map fst (flattenObject (xs @ (k, JObj []) # ys) pre))
     = missingKeysOf referenceKeys (map fst (flattenObject (xs @ ys) pre))
   \<and> extraneousKeysOf referenceKeys (map fst (flattenObject (xs @ (k, JObj []) # ys) pre))
     = extraneousKeysOf referenceKeys (map fst (flattenObject (xs @ ys) pre))
   \<and> missingKeysOf (map fst (flattenObject (xs @ (k, JObj []) # ys) pre)) flattenedKeys
     = missingKeysOf (map fst (flattenObject (xs @ ys) pre)) flattenedKeys
   \<and> extraneousKeysOf (map fst (flattenObject (xs @ (k, JObj []) # ys) pre)) flattenedKeys
     = extraneousKeysOf (map fst (flattenObject (xs @ ys) pre)) flattenedKeys"
proof -
  have "flattenObject (xs @ (k, JObj []) # ys) pre = flattenObject (xs @ ys) pre"
    by (simp add: flattenObject.simps [of "xs @ (k, JObj []) # ys"] flattenObject.simps [of "xs @ ys"])
  then show ?thesis by simp
qed

end
